theory Spec2Isabelle
  imports Complex_Main "HOL-Library.Sublist" "HOL-Library.AList"
begin

section \<open>Strings\<close>

text \<open>
  The graph page of \<^verbatim>\<open>src/index.js\<close> works on JavaScript strings. A string is
  modelled as a \<^typ>\<open>string\<close>, one \<^typ>\<open>char\<close> per code unit, and the library
  methods the page calls (\<^verbatim>\<open>toLowerCase\<close>, \<^verbatim>\<open>trim\<close>, \<^verbatim>\<open>startsWith\<close>,
  \<^verbatim>\<open>includes\<close>) are written out as recursive functions with the meaning ECMAScript
  gives them on ASCII text: \<^verbatim>\<open>toLowerCase\<close> maps \<^verbatim>\<open>A\<close>..\<^verbatim>\<open>Z\<close> to \<^verbatim>\<open>a\<close>..\<^verbatim>\<open>z\<close>
  and leaves every other code unit alone; \<^verbatim>\<open>trim\<close> strips TAB, LF, VT, FF, CR and
  SPACE from both ends.
\<close>

definition toLowerChar :: "char \<Rightarrow> char" where
  "toLowerChar c =
     (let n = (of_char c :: nat) in if 65 \<le> n \<and> n \<le> 90 then char_of (n + 32) else c)"

definition toLowerCase :: "string \<Rightarrow> string" where
  "toLowerCase s = map toLowerChar s"

definition isWhiteSpace :: "char \<Rightarrow> bool" where
  "isWhiteSpace c = (let n = (of_char c :: nat) in (9 \<le> n \<and> n \<le> 13) \<or> n = 32)"

definition trim :: "string \<Rightarrow> string" where
  "trim s = rev (dropWhile isWhiteSpace (rev (dropWhile isWhiteSpace s)))"

fun startsWith :: "string \<Rightarrow> string \<Rightarrow> bool" where
  "startsWith text [] = True"
| "startsWith [] (q # qs) = False"
| "startsWith (t # ts) (q # qs) = (t = q \<and> startsWith ts qs)"

fun includes_str :: "string \<Rightarrow> string \<Rightarrow> bool" where
  "includes_str [] query = startsWith [] query"
| "includes_str (t # ts) query = (startsWith (t # ts) query \<or> includes_str ts query)"

section \<open>Search matcher\<close>

text \<open>
  \<^verbatim>\<open>fuzzyMatch\<close> lowercases the text and runs one \<^verbatim>\<open>for\<close> loop over it. The loop
  state is the pair of the text index \<^verbatim>\<open>i\<close> and \<^verbatim>\<open>queryIndex\<close>; the loop runs while
  \<^verbatim>\<open>i < text.length && queryIndex < query.length\<close>, and \<open>fuzzyLoop\<close> returns the
  state at exit.
\<close>

function fuzzyLoop :: "string \<Rightarrow> string \<Rightarrow> nat \<Rightarrow> nat \<Rightarrow> nat \<times> nat" where
  "fuzzyLoop text query i queryIndex =
     (if i < length text \<and> queryIndex < length query
      then fuzzyLoop text query (Suc i)
             (if text ! i = query ! queryIndex then Suc queryIndex else queryIndex)
      else (i, queryIndex))"
  by pat_completeness auto
termination
  by (relation "measure (\<lambda>(text, query, i, queryIndex). length text - i)") auto

declare fuzzyLoop.simps [simp del]

definition fuzzyMatch :: "string \<Rightarrow> string \<Rightarrow> bool" where
  "fuzzyMatch text query =
     (let text' = toLowerCase text;
          queryIndex = snd (fuzzyLoop text' query 0 0)
      in queryIndex = length query)"

definition getMatchScore :: "string \<Rightarrow> string \<Rightarrow> nat" where
  "getMatchScore text query =
     (let text' = toLowerCase text in
      if startsWith text' query then 100
      else if includes_str text' query then 50
      else if fuzzyMatch text' query then 25
      else 0)"

text \<open>
  The score as the specification words it, over the library's \<^const>\<open>prefix\<close>,
  \<^const>\<open>sublist\<close> and \<^const>\<open>subseq\<close> of the lowercased text; it is compared with
  \<^const>\<open>getMatchScore\<close> below.
\<close>

definition score_spec :: "string \<Rightarrow> string \<Rightarrow> nat" where
  "score_spec text query =
     (if prefix query (toLowerCase text) then 100
      else if sublist query (toLowerCase text) then 50
      else if subseq query (toLowerCase text) then 25
      else 0)"

section \<open>Tooltip positioner\<close>

text \<open>
  \<^verbatim>\<open>positionTooltip(x, y, isDetailed = false, nodeRadius = 8)\<close> reads the tooltip
  element (absent when the page has none) and the window's inner size. The element's
  \<^verbatim>\<open>offsetWidth\<close>/\<^verbatim>\<open>offsetHeight\<close> and the window's \<^verbatim>\<open>innerWidth\<close>/\<^verbatim>\<open>innerHeight\<close>
  are non-negative integers; the anchor and the radius are numbers, taken as reals.
\<close>

record element_box =
  offsetWidth :: nat
  offsetHeight :: nat

record window =
  innerWidth :: nat
  innerHeight :: nat

record position =
  left :: real
  top_px :: real

definition positionTooltip ::
  "window \<Rightarrow> element_box option \<Rightarrow> real \<Rightarrow> real \<Rightarrow> bool \<Rightarrow> real \<Rightarrow> position" where
  "positionTooltip win tooltipNode x y isDetailed nodeRadius =
     (let tooltipWidth = (case tooltipNode of Some e \<Rightarrow> real (offsetWidth e)
                          | None \<Rightarrow> if isDetailed then 280 else 180);
          tooltipHeight = (case tooltipNode of Some e \<Rightarrow> real (offsetHeight e)
                          | None \<Rightarrow> if isDetailed then 200 else 60);
          padding = 12;
          gap = 16;
          left0 = x - tooltipWidth / 2;
          top0 = y - nodeRadius - tooltipHeight - gap;
          left1 = max padding (min left0 (real (innerWidth win) - tooltipWidth - padding));
          top1 = (if top0 < padding then y + nodeRadius + gap else top0)
      in if top1 + tooltipHeight > real (innerHeight win) - padding
         then (let top2 = max padding (y - tooltipHeight / 2);
                   left2 = x + nodeRadius + gap;
                   left3 = (if left2 + tooltipWidth > real (innerWidth win) - padding
                            then x - nodeRadius - tooltipWidth - gap else left2)
               in \<lparr>left = left3, top_px = top2\<rparr>)
         else \<lparr>left = left1, top_px = top1\<rparr>)"

text \<open>
  The size the positioner works with: the rendered size of the tooltip element when there
  is one, else the fallback size.
\<close>

definition tooltipSize :: "element_box option \<Rightarrow> bool \<Rightarrow> real \<times> real" where
  "tooltipSize tooltipNode isDetailed =
     (case tooltipNode of
        Some e \<Rightarrow> (real (offsetWidth e), real (offsetHeight e))
      | None \<Rightarrow> if isDetailed then (280, 200) else (180, 60))"

definition fallbackSize :: "bool \<Rightarrow> real \<times> real" where
  "fallbackSize isDetailed = (if isDetailed then (280, 200) else (180, 60))"

text \<open>
  A rectangle of size \<open>w\<close> by \<open>h\<close> placed at \<open>p\<close> lies within the window inset by the
  padding of 12 on every edge.
\<close>

definition insidePadded :: "window \<Rightarrow> real \<times> real \<Rightarrow> position \<Rightarrow> bool" where
  "insidePadded win sz p =
     (12 \<le> left p \<and> left p + fst sz \<le> real (innerWidth win) - 12 \<and>
      12 \<le> top_px p \<and> top_px p + snd sz \<le> real (innerHeight win) - 12)"

definition anchorInside :: "window \<Rightarrow> real \<Rightarrow> real \<Rightarrow> bool" where
  "anchorInside win x y =
     (0 \<le> x \<and> x \<le> real (innerWidth win) \<and> 0 \<le> y \<and> y \<le> real (innerHeight win))"

section \<open>Record normalizer\<close>

text \<open>
  A person of \<^verbatim>\<open>data.json\<close> has a name and optional string fields. A node copies them
  (\<^verbatim>\<open>person.f || null\<close> turns an absent or empty field into \<^verbatim>\<open>null\<close>) and adds the
  derived identifier and the index. The random start position is owned by the force
  simulation and is left out.
\<close>

record person =
  name :: string
  website :: "string option"
  linkedIn :: "string option"
  gitHub :: "string option"
  graduationYear :: "string option"
  professionalEmail :: "string option"

record node = person +
  node_id :: string
  index :: nat

definition orNull :: "string option \<Rightarrow> string option" where
  "orNull v = (case v of None \<Rightarrow> None | Some s \<Rightarrow> if s = [] then None else Some s)"

text \<open>\<^verbatim>\<open>s.replace(/\s+/g, '-')\<close>: every maximal run of white space becomes one hyphen.\<close>

function replaceSpaces :: "string \<Rightarrow> string" where
  "replaceSpaces [] = []"
| "replaceSpaces (c # cs) =
     (if isWhiteSpace c then CHR ''-'' # replaceSpaces (dropWhile isWhiteSpace cs)
      else c # replaceSpaces cs)"
  by pat_completeness auto
termination
  by (relation "measure length") (auto simp: length_dropWhile_le less_Suc_eq_le)

definition makeNode :: "person \<Rightarrow> nat \<Rightarrow> node" where
  "makeNode p i =
     \<lparr>name = name p,
      website = orNull (website p),
      linkedIn = orNull (linkedIn p),
      gitHub = orNull (gitHub p),
      graduationYear = orNull (graduationYear p),
      professionalEmail = orNull (professionalEmail p),
      node_id = replaceSpaces (toLowerCase (name p)),
      index = i\<rparr>"

definition makeNodes :: "person list \<Rightarrow> node list" where
  "makeNodes data = map (\<lambda>(p, i). makeNode p i) (zip data [0..<length data])"

section \<open>Relationship builder\<close>

text \<open>
  \<^verbatim>\<open>yearGroups\<close> is a JavaScript \<^verbatim>\<open>Map\<close>, which iterates in insertion order: an
  association list, with \<^const>\<open>AList.update\<close> for \<^verbatim>\<open>set\<close> (a new key goes to the end)
  and \<^const>\<open>AList.map_entry\<close> for the \<^verbatim>\<open>push\<close> onto the group stored under a key.
\<close>

record link =
  source :: string
  target :: string

definition yearKey :: "node \<Rightarrow> string" where
  "yearKey n =
     (case graduationYear n of None \<Rightarrow> ''unknown''
      | Some y \<Rightarrow> if y = [] then ''unknown'' else y)"

definition has :: "(string \<times> node list) list \<Rightarrow> string \<Rightarrow> bool" where
  "has m k = (map_of m k \<noteq> None)"

definition addToGroup :: "node \<Rightarrow> (string \<times> node list) list \<Rightarrow> (string \<times> node list) list" where
  "addToGroup n m =
     (let year = yearKey n;
          m1 = (if \<not> has m year then AList.update year [] m else m)
      in AList.map_entry year (\<lambda>g. g @ [n]) m1)"

definition yearGroups :: "node list \<Rightarrow> (string \<times> node list) list" where
  "yearGroups nodes = fold addToGroup nodes []"

text \<open>The \<^verbatim>\<open>for\<close> loop of the ring: it pushes one link per index \<open>i\<close>.\<close>

function ringLoop :: "node list \<Rightarrow> nat \<Rightarrow> link list \<Rightarrow> link list" where
  "ringLoop groupNodes i links =
     (if i < length groupNodes
      then (let nextIndex = (i + 1) mod length groupNodes
            in ringLoop groupNodes (Suc i)
                 (links @ [\<lparr>source = node_id (groupNodes ! i),
                            target = node_id (groupNodes ! nextIndex)\<rparr>]))
      else links)"
  by pat_completeness auto
termination
  by (relation "measure (\<lambda>(groupNodes, i, links). length groupNodes - i)") auto

declare ringLoop.simps [simp del]

definition linkGroup :: "node list \<Rightarrow> link list \<Rightarrow> link list" where
  "linkGroup groupNodes links =
     (if length groupNodes = 1 then links
      else if length groupNodes = 2
      then links @ [\<lparr>source = node_id (groupNodes ! 0), target = node_id (groupNodes ! 1)\<rparr>]
      else ringLoop groupNodes 0 links)"

definition buildLinks :: "node list \<Rightarrow> link list" where
  "buildLinks nodes = fold (\<lambda>(year, groupNodes) links. linkGroup groupNodes links) (yearGroups nodes) []"

text \<open>
  The edges of one cohort as the specification words them: none for one node, one for two,
  and for three or more the edges between consecutive nodes in group order followed by
  the closing edge from the last node back to the first.
\<close>

definition edge :: "node \<Rightarrow> node \<Rightarrow> link" where
  "edge a b = \<lparr>source = node_id a, target = node_id b\<rparr>"

definition cohortEdges_spec :: "node list \<Rightarrow> link list" where
  "cohortEdges_spec g =
     (if length g \<le> 1 then []
      else if length g = 2 then [edge (g ! 0) (g ! 1)]
      else map (\<lambda>(a, b). edge a b) (zip g (tl g)) @ [edge (last g) (hd g)])"

text \<open>The elements of a list in the order of their first occurrence.\<close>

definition firstOccurrences :: "'a list \<Rightarrow> 'a list" where
  "firstOccurrences xs = rev (remdups (rev xs))"

text \<open>The cohort stored under a key: the nodes with that key, in the order of the input.\<close>

definition groupsOf :: "node list \<Rightarrow> string \<Rightarrow> node list option" where
  "groupsOf ns k =
     (if k \<in> yearKey ` set ns then Some (filter (\<lambda>n. yearKey n = k) ns) else None)"

text \<open>
  The scenario of the specification (Alice, Bob and Cara of 2020), with two contributors
  of 2021 and one without a year among them.
\<close>

definition contributor :: "string \<Rightarrow> string option \<Rightarrow> person" where
  "contributor n y =
     \<lparr>name = n, website = None, linkedIn = None, gitHub = None, graduationYear = y,
      professionalEmail = None\<rparr>"

definition scenario :: "node list" where
  "scenario = makeNodes
     [contributor ''Alice'' (Some ''2020''), contributor ''Dan'' (Some ''2021''),
      contributor ''Bob'' (Some ''2020''), contributor ''Eve'' None,
      contributor ''Cara'' (Some ''2020''), contributor ''Fay'' (Some ''2021'')]"

section \<open>Page state and event handlers\<close>

text \<open>
  The page holds one \<^verbatim>\<open>g.node\<close> element per node and one \<^verbatim>\<open>div.person-card\<close> per
  node, both bound to the node as their datum, each with the classes \<^verbatim>\<open>active\<close>,
  \<^verbatim>\<open>search-match\<close> and \<^verbatim>\<open>search-dim\<close>. A card carries \<^verbatim>\<open>data-id\<close> (the node's
  identifier), the name in \<^verbatim>\<open>.person-name\<close> and, when the node has a graduation year,
  the label \<^verbatim>\<open>Class of <year>\<close> in \<^verbatim>\<open>.person-details .year\<close>; these are functions of
  the datum (names are taken to hold no HTML markup, and identifiers no quote or
  backslash, so that the text of the card is the name and the attribute selector built
  from the identifier selects by equality). The tooltip has the classes \<^verbatim>\<open>visible\<close>
  and \<^verbatim>\<open>detailed\<close>; \<^verbatim>\<open>requestAnimationFrame\<close> callbacks wait in a queue until the
  next frame.
\<close>

record el =
  datum :: node
  active :: bool
  search_match :: bool
  search_dim :: bool

datatype frame_job = ShowHover | ShowDetailed

record page =
  nodeEls :: "el list"
  cardEls :: "el list"
  tooltip_visible :: bool
  tooltip_detailed :: bool
  frames :: "frame_job list"
  scrolledIntoView :: "nat option"

definition data_id :: "el \<Rightarrow> string" where
  "data_id c = node_id (datum c)"

definition personNameText :: "el \<Rightarrow> string" where
  "personNameText c = name (datum c)"

definition yearText :: "el \<Rightarrow> string option" where
  "yearText c =
     (case graduationYear (datum c) of None \<Rightarrow> None
      | Some y \<Rightarrow> if y = [] then None else Some (''Class of '' @ y))"

definition makeEl :: "node \<Rightarrow> el" where
  "makeEl n = \<lparr>datum = n, active = False, search_match = False, search_dim = False\<rparr>"

definition loadPage :: "person list \<Rightarrow> page" where
  "loadPage data =
     (let nodes = makeNodes data
      in \<lparr>nodeEls = map makeEl nodes, cardEls = map makeEl nodes,
          tooltip_visible = False, tooltip_detailed = False, frames = [],
          scrolledIntoView = None\<rparr>)"

text \<open>\<^verbatim>\<open>selection.classed("active", false)\<close> on every element of a selection.\<close>

definition clearActive :: "el list \<Rightarrow> el list" where
  "clearActive es = map (\<lambda>e. e\<lparr>active := False\<rparr>) es"

text \<open>
  \<^verbatim>\<open>d3.select(sel)\<close> with an attribute selector on \<^verbatim>\<open>data-id\<close> takes the first card in
  document order whose identifier is the one asked for, and the empty selection when
  there is none.
\<close>

fun activateFirst :: "string \<Rightarrow> el list \<Rightarrow> el list" where
  "activateFirst i [] = []"
| "activateFirst i (c # cs) =
     (if data_id c = i then c\<lparr>active := True\<rparr> # cs else c # activateFirst i cs)"

definition showDetailedTooltip :: "page \<Rightarrow> page" where
  "showDetailedTooltip pg = pg\<lparr>frames := frames pg @ [ShowDetailed]\<rparr>"

text \<open>The click handler of a card (the \<open>i\<close>-th of the sidebar).\<close>

definition cardClick :: "nat \<Rightarrow> page \<Rightarrow> page" where
  "cardClick i pg =
     (if i < length (cardEls pg)
      then showDetailedTooltip
             (pg\<lparr>cardEls := (clearActive (cardEls pg))[i := (clearActive (cardEls pg) ! i)\<lparr>active := True\<rparr>]\<rparr>)
      else pg)"

text \<open>The click handler of a node's circle (the \<open>i\<close>-th node of the graph).\<close>

definition circleClick :: "nat \<Rightarrow> page \<Rightarrow> page" where
  "circleClick i pg =
     (if i < length (nodeEls pg)
      then (let d = datum (nodeEls pg ! i);
                pg1 = pg\<lparr>nodeEls := (clearActive (nodeEls pg))[i := (clearActive (nodeEls pg) ! i)\<lparr>active := True\<rparr>]\<rparr>;
                pg2 = pg1\<lparr>cardEls := activateFirst (node_id d) (clearActive (cardEls pg1))\<rparr>
            in showDetailedTooltip pg2)
      else pg)"

text \<open>
  The click listener of the document. The target of the click is inside a node, inside a
  card, or elsewhere.
\<close>

datatype click_target = InNode | InCard | Elsewhere

definition documentClick :: "click_target \<Rightarrow> page \<Rightarrow> page" where
  "documentClick tgt pg =
     (if tooltip_detailed pg \<and> tgt \<noteq> InNode \<and> tgt \<noteq> InCard
      then pg\<lparr>tooltip_visible := False, tooltip_detailed := False,
              cardEls := clearActive (cardEls pg), nodeEls := clearActive (nodeEls pg)\<rparr>
      else pg)"

definition runJob :: "frame_job \<Rightarrow> page \<Rightarrow> page" where
  "runJob j pg =
     (case j of
        ShowHover \<Rightarrow> pg\<lparr>tooltip_visible := True\<rparr>
      | ShowDetailed \<Rightarrow> pg\<lparr>tooltip_visible := True, tooltip_detailed := True\<rparr>)"

definition animationFrame :: "page \<Rightarrow> page" where
  "animationFrame pg = fold runJob (frames pg) (pg\<lparr>frames := []\<rparr>)"

text \<open>
  What the user does. A click on a circle stops propagating, so the document listener
  does not see it; a click on a card reaches the card's handler and then the document
  listener; a click on a node's label or anywhere else reaches the document only.
\<close>

datatype event =
    ClickCircle nat
  | ClickCard nat
  | ClickLabel nat
  | ClickElsewhere
  | MouseOver nat
  | MouseOut
  | Frame

definition mouseover :: "page \<Rightarrow> page" where
  "mouseover pg = (if \<not> tooltip_detailed pg then pg\<lparr>frames := frames pg @ [ShowHover]\<rparr> else pg)"

definition mouseout :: "page \<Rightarrow> page" where
  "mouseout pg = (if \<not> tooltip_detailed pg then pg\<lparr>tooltip_visible := False\<rparr> else pg)"

fun step :: "event \<Rightarrow> page \<Rightarrow> page" where
  "step (ClickCircle i) pg = circleClick i pg"
| "step (ClickCard i) pg = documentClick InCard (cardClick i pg)"
| "step (ClickLabel i) pg = documentClick InNode pg"
| "step ClickElsewhere pg = documentClick Elsewhere pg"
| "step (MouseOver i) pg = mouseover pg"
| "step MouseOut pg = mouseout pg"
| "step Frame pg = animationFrame pg"

definition run :: "event list \<Rightarrow> page \<Rightarrow> page" where
  "run evs pg = fold step evs pg"

definition activeNodes :: "page \<Rightarrow> string list" where
  "activeNodes pg = map data_id (filter active (nodeEls pg))"

definition activeCards :: "page \<Rightarrow> string list" where
  "activeCards pg = map data_id (filter active (cardEls pg))"

section \<open>Search input handler\<close>

definition clearSearch :: "el list \<Rightarrow> el list" where
  "clearSearch es = map (\<lambda>e. e\<lparr>search_match := False, search_dim := False\<rparr>) es"

definition classify :: "bool \<Rightarrow> el \<Rightarrow> el" where
  "classify isMatch e = e\<lparr>search_match := isMatch, search_dim := \<not> isMatch\<rparr>"

definition nodeScore :: "string \<Rightarrow> el \<Rightarrow> nat" where
  "nodeScore query e =
     (let d = datum e;
          nameScore = getMatchScore (name d) query;
          yearScore = (case graduationYear d of None \<Rightarrow> 0
                       | Some y \<Rightarrow> if y = [] then 0 else getMatchScore y query)
      in max nameScore yearScore)"

definition cardScore :: "string \<Rightarrow> el \<Rightarrow> nat" where
  "cardScore query cardEl =
     (let name = personNameText cardEl;
          year = (case yearText cardEl of None \<Rightarrow> [] | Some t \<Rightarrow> t);
          nameScore = getMatchScore name query;
          yearScore = getMatchScore year query
      in max nameScore yearScore)"

text \<open>
  The loop over the cards: \<open>k\<close> is the position of the card at the head of the list,
  \<open>bestScore\<close> and \<open>firstMatch\<close> are the two variables the loop updates. It returns the
  cards with their classes set, and the final \<open>firstMatch\<close>.
\<close>

fun cardLoop :: "string \<Rightarrow> el list \<Rightarrow> nat \<Rightarrow> nat \<Rightarrow> nat option \<Rightarrow> el list \<times> nat option" where
  "cardLoop query [] k bestScore firstMatch = ([], firstMatch)"
| "cardLoop query (cardEl # rest) k bestScore firstMatch =
     (let score = cardScore query cardEl;
          isMatch = (score > 0);
          cardEl' = classify isMatch cardEl;
          (bestScore', firstMatch') =
             (if isMatch \<and> score > bestScore then (score, Some k) else (bestScore, firstMatch));
          (rest', result) = cardLoop query rest (Suc k) bestScore' firstMatch'
      in (cardEl' # rest', result))"

definition searchInput :: "string \<Rightarrow> page \<Rightarrow> page" where
  "searchInput v pg =
     (let query = trim (toLowerCase v) in
      if query = []
      then pg\<lparr>nodeEls := clearSearch (nodeEls pg), cardEls := clearSearch (cardEls pg)\<rparr>
      else (let nodeEls' = map (\<lambda>e. classify (nodeScore query e > 0) e) (nodeEls pg);
                (cardEls', firstMatch) = cardLoop query (cardEls pg) 0 0 None
            in pg\<lparr>nodeEls := nodeEls', cardEls := cardEls',
                   scrolledIntoView := (case firstMatch of None \<Rightarrow> scrolledIntoView pg
                                        | Some k \<Rightarrow> Some k)\<rparr>))"

text \<open>
  The effective score of an item as the specification words it: the larger of the score of
  the name and the score of the cohort label, which is the graduation year, when the item
  has one, else of 0.
\<close>

definition effectiveScore_spec :: "string \<Rightarrow> el \<Rightarrow> nat" where
  "effectiveScore_spec query item =
     max (getMatchScore (name (datum item)) query)
         (case graduationYear (datum item) of None \<Rightarrow> 0
          | Some label \<Rightarrow> getMatchScore label query)"

text \<open>A page for the examples of the search: four contributors, two of them with the same best score for \<^verbatim>\<open>jo\<close>.\<close>

definition team :: "person list" where
  "team =
     [contributor ''Bob Jones'' (Some ''2020''), contributor ''Joshua Choong'' None,
      contributor ''John'' (Some ''2021''), contributor ''Alice'' (Some ''2020'')]"

text \<open>A page of two contributors, one with a graduation year and one without.\<close>

definition duo :: "person list" where
  "duo = [contributor ''Bob'' (Some ''2020''), contributor ''Carl'' None]"

section \<open>Facts about the string methods\<close>

lemma toLowerChar_idem: "toLowerChar (toLowerChar c) = toLowerChar c"
  by (simp add: toLowerChar_def Let_def)

lemma toLowerCase_idem: "toLowerCase (toLowerCase s) = toLowerCase s"
  by (simp add: toLowerCase_def toLowerChar_idem)

lemma length_toLowerCase: "length (toLowerCase s) = length s"
  by (simp add: toLowerCase_def)

lemma startsWith_prefix: "startsWith tx query = prefix query tx"
  by (induction tx query rule: startsWith.induct) auto

lemma includes_sublist: "includes_str tx query = sublist query tx"
  by (induction tx) (simp_all add: startsWith_prefix sublist_Cons_right)

section \<open>Facts about the matcher loop\<close>

lemma fuzzyLoop_subseq:
  "queryIndex \<le> length query \<Longrightarrow>
   (snd (fuzzyLoop tx query i queryIndex) = length query)
     = subseq (drop queryIndex query) (drop i tx)"
proof (induction tx query i queryIndex rule: fuzzyLoop.induct)
  case (1 tx query i queryIndex)
  show ?case
  proof (cases "i < length tx \<and> queryIndex < length query")
    case True
    then have dt: "drop i tx = tx ! i # drop (Suc i) tx"
      and dq: "drop queryIndex query = query ! queryIndex # drop (Suc queryIndex) query"
      by (simp_all add: Cons_nth_drop_Suc)
    from True "1.prems" have le: "(if tx ! i = query ! queryIndex then Suc queryIndex
        else queryIndex) \<le> length query"
      by simp
    have "snd (fuzzyLoop tx query i queryIndex)
        = snd (fuzzyLoop tx query (Suc i)
            (if tx ! i = query ! queryIndex then Suc queryIndex else queryIndex))"
      using True by (subst fuzzyLoop.simps) simp
    also have "(\<dots> = length query)
        = subseq (drop (if tx ! i = query ! queryIndex then Suc queryIndex else queryIndex) query)
            (drop (Suc i) tx)"
      using "1.IH" [OF True le] .
    also have "\<dots> = subseq (drop queryIndex query) (drop i tx)"
      by (auto simp: dt dq)
    finally show ?thesis .
  next
    case False
    then have r: "fuzzyLoop tx query i queryIndex = (i, queryIndex)"
      by (subst fuzzyLoop.simps) auto
    from False "1.prems" show ?thesis
      unfolding r by (cases "queryIndex = length query") auto
  qed
qed

lemma fuzzyLoop_index:
  "i \<le> length tx \<Longrightarrow> i \<le> fst (fuzzyLoop tx query i queryIndex)
     \<and> fst (fuzzyLoop tx query i queryIndex) \<le> length tx"
proof (induction tx query i queryIndex rule: fuzzyLoop.induct)
  case (1 tx query i queryIndex)
  show ?case
  proof (cases "i < length tx \<and> queryIndex < length query")
    case True
    then have le: "Suc i \<le> length tx" by simp
    have r: "fuzzyLoop tx query i queryIndex
        = fuzzyLoop tx query (Suc i)
            (if tx ! i = query ! queryIndex then Suc queryIndex else queryIndex)"
      using True by (subst fuzzyLoop.simps) simp
    from "1.IH" [OF True le] show ?thesis
      unfolding r by simp
  next
    case False
    then have r: "fuzzyLoop tx query i queryIndex = (i, queryIndex)"
      by (subst fuzzyLoop.simps) auto
    from "1.prems" show ?thesis
      by (simp add: r)
  qed
qed

lemma fuzzyMatch_subseq: "fuzzyMatch tx query = subseq query (toLowerCase tx)"
  using fuzzyLoop_subseq [of 0 query "toLowerCase tx" 0]
  by (simp add: fuzzyMatch_def Let_def)

lemma getMatchScore_spec: "getMatchScore tx query = score_spec tx query"
  by (simp add: getMatchScore_def score_spec_def Let_def startsWith_prefix includes_sublist
      fuzzyMatch_subseq toLowerCase_idem)

section \<open>Facts about the tooltip positioner\<close>

lemma tooltipSize_nonneg:
  "0 \<le> fst (tooltipSize tooltipNode isDetailed) \<and> 0 \<le> snd (tooltipSize tooltipNode isDetailed)"
  by (simp add: tooltipSize_def split: option.split)

lemma positionTooltip_size:
  "positionTooltip win tooltipNode x y isDetailed nodeRadius =
     (let w = fst (tooltipSize tooltipNode isDetailed);
          h = snd (tooltipSize tooltipNode isDetailed);
          top1 = (if y - nodeRadius - h - 16 < 12 then y + nodeRadius + 16
                  else y - nodeRadius - h - 16)
      in if top1 + h > real (innerHeight win) - 12
         then \<lparr>left = (if x + nodeRadius + 16 + w > real (innerWidth win) - 12
                        then x - nodeRadius - w - 16 else x + nodeRadius + 16),
               top_px = max 12 (y - h / 2)\<rparr>
         else \<lparr>left = max 12 (min (x - w / 2) (real (innerWidth win) - w - 12)),
               top_px = top1\<rparr>)"
  by (cases tooltipNode) (simp_all add: positionTooltip_def tooltipSize_def Let_def)

text \<open>
  Where the positioner does keep the tooltip inside the padded window: the anchor inside
  the window, and room for the tooltip on either side of the anchor and beside it.
\<close>

lemma positionTooltip_inside_roomy:
  assumes anchor: "anchorInside win x y"
    and radius: "0 \<le> nodeRadius"
    and wide: "2 * (fst (tooltipSize tooltipNode isDetailed) + nodeRadius + 28)
                 \<le> real (innerWidth win)"
    and tall: "3 / 2 * snd (tooltipSize tooltipNode isDetailed) + nodeRadius + 40
                 \<le> real (innerHeight win)"
  shows "insidePadded win (tooltipSize tooltipNode isDetailed)
           (positionTooltip win tooltipNode x y isDetailed nodeRadius)"
proof -
  define w where "w = fst (tooltipSize tooltipNode isDetailed)"
  define h where "h = snd (tooltipSize tooltipNode isDetailed)"
  define vw where "vw = real (innerWidth win)"
  define vh where "vh = real (innerHeight win)"
  have nonneg: "0 \<le> w" "0 \<le> h"
    using tooltipSize_nonneg [of tooltipNode isDetailed] by (simp_all add: w_def h_def)
  have a: "0 \<le> x" "x \<le> vw" "0 \<le> y" "y \<le> vh"
    using anchor by (simp_all add: anchorInside_def vw_def vh_def)
  have b: "2 * (w + nodeRadius + 28) \<le> vw" "3 / 2 * h + nodeRadius + 40 \<le> vh"
    using wide tall by (simp_all add: w_def h_def vw_def vh_def)
  show ?thesis
    unfolding positionTooltip_size insidePadded_def Let_def
    unfolding w_def [symmetric] h_def [symmetric] vw_def [symmetric] vh_def [symmetric]
    using nonneg a b radius by (auto simp: max_def min_def split: if_splits)
qed

text \<open>
  An anchor that is not above the window (\<open>y \<ge> 0\<close>) and has no room above gets the
  placement below, or one of the two placements beside it, and a top of at least 12.
\<close>

lemma positionTooltip_top_floor:
  assumes anchor: "0 \<le> y"
    and radius: "0 \<le> nodeRadius"
    and near_top: "y - nodeRadius - snd (tooltipSize tooltipNode isDetailed) - 16 < 12"
  shows "12 \<le> top_px (positionTooltip win tooltipNode x y isDetailed nodeRadius)
    \<and> top_px (positionTooltip win tooltipNode x y isDetailed nodeRadius)
        \<noteq> y - nodeRadius - snd (tooltipSize tooltipNode isDetailed) - 16
    \<and> (positionTooltip win tooltipNode x y isDetailed nodeRadius
          = \<lparr>left = max 12 (min (x - fst (tooltipSize tooltipNode isDetailed) / 2)
                     (real (innerWidth win) - fst (tooltipSize tooltipNode isDetailed) - 12)),
             top_px = y + nodeRadius + 16\<rparr>
        \<or> positionTooltip win tooltipNode x y isDetailed nodeRadius
          = \<lparr>left = x + nodeRadius + 16,
             top_px = max 12 (y - snd (tooltipSize tooltipNode isDetailed) / 2)\<rparr>
        \<or> positionTooltip win tooltipNode x y isDetailed nodeRadius
          = \<lparr>left = x - nodeRadius - fst (tooltipSize tooltipNode isDetailed) - 16,
             top_px = max 12 (y - snd (tooltipSize tooltipNode isDetailed) / 2)\<rparr>)"
  using assms unfolding positionTooltip_size Let_def
  by (auto simp: max_def)

text \<open>
  With no room above, the placement below is taken as it is whenever it does not pass the
  bottom of the window: its top is \<open>y + r + 16\<close>, whatever \<open>y\<close> is.
\<close>

lemma positionTooltip_below_unclamped:
  assumes "y - nodeRadius - snd (tooltipSize tooltipNode isDetailed) - 16 < 12"
    and "y + nodeRadius + 16 + snd (tooltipSize tooltipNode isDetailed)
           \<le> real (innerHeight win) - 12"
  shows "top_px (positionTooltip win tooltipNode x y isDetailed nodeRadius)
           = y + nodeRadius + 16"
  using assms unfolding positionTooltip_size Let_def by simp

section \<open>Facts about the relationship builder\<close>

lemma firstOccurrences_snoc:
  "firstOccurrences (xs @ [x]) =
     (if x \<in> set xs then firstOccurrences xs else firstOccurrences xs @ [x])"
  by (simp add: firstOccurrences_def)

lemma map_fst_map_entry: "map fst (AList.map_entry k f xs) = map fst xs"
  by (induction xs) auto

lemma addToGroup_keys:
  "map fst (addToGroup n m) =
     (if yearKey n \<in> set (map fst m) then map fst m else map fst m @ [yearKey n])"
  by (auto simp: addToGroup_def Let_def has_def map_fst_map_entry update_keys map_of_eq_None_iff)

lemma addToGroup_map_of:
  "map_of (addToGroup n m) =
     (map_of m)(yearKey n \<mapsto> (case map_of m (yearKey n) of None \<Rightarrow> [n] | Some g \<Rightarrow> g @ [n]))"
  by (auto simp: addToGroup_def Let_def has_def map_of_map_entry update_conv' fun_eq_iff)

lemma addToGroup_invariant:
  assumes "map fst m = firstOccurrences (map yearKey ns)"
    and "map_of m = groupsOf ns"
  shows "map fst (addToGroup n m) = firstOccurrences (map yearKey (ns @ [n]))"
    and "map_of (addToGroup n m) = groupsOf (ns @ [n])"
proof -
  have keys: "set (map fst m) = yearKey ` set ns"
    using assms(1) by (simp add: firstOccurrences_def)
  show "map fst (addToGroup n m) = firstOccurrences (map yearKey (ns @ [n]))"
    using assms(1) keys by (simp add: addToGroup_keys firstOccurrences_snoc)
  show "map_of (addToGroup n m) = groupsOf (ns @ [n])"
    unfolding addToGroup_map_of assms(2)
    by (auto simp: groupsOf_def fun_eq_iff filter_empty_conv image_iff)
qed

lemma fold_addToGroup_invariant:
  "map fst m = firstOccurrences (map yearKey ns) \<Longrightarrow> map_of m = groupsOf ns \<Longrightarrow>
   map fst (fold addToGroup xs m) = firstOccurrences (map yearKey (ns @ xs))
   \<and> map_of (fold addToGroup xs m) = groupsOf (ns @ xs)"
proof (induction xs arbitrary: m ns)
  case Nil
  then show ?case by simp
next
  case (Cons x xs)
  from Cons.IH [OF addToGroup_invariant [OF Cons.prems]]
  show ?case by simp
qed

lemma yearGroups_keys: "map fst (yearGroups nodes) = firstOccurrences (map yearKey nodes)"
  using fold_addToGroup_invariant [of "[]" "[]" nodes]
  by (simp add: yearGroups_def firstOccurrences_def groupsOf_def fun_eq_iff)

lemma yearGroups_map_of: "map_of (yearGroups nodes) = groupsOf nodes"
  using fold_addToGroup_invariant [of "[]" "[]" nodes]
  by (simp add: yearGroups_def firstOccurrences_def groupsOf_def fun_eq_iff)

lemma yearGroups_distinct: "distinct (map fst (yearGroups nodes))"
  by (simp add: yearGroups_keys firstOccurrences_def)

lemma yearGroups_member:
  "(k, g) \<in> set (yearGroups nodes)
     \<longleftrightarrow> k \<in> yearKey ` set nodes \<and> g = filter (\<lambda>n. yearKey n = k) nodes"
proof -
  have "(k, g) \<in> set (yearGroups nodes) \<longleftrightarrow> map_of (yearGroups nodes) k = Some g"
    using yearGroups_distinct [of nodes] by simp
  then show ?thesis
    by (auto simp: yearGroups_map_of groupsOf_def)
qed

lemma ringLoop_map:
  "ringLoop g i links =
     links @ map (\<lambda>j. edge (g ! j) (g ! ((j + 1) mod length g))) [i..<length g]"
proof (induction g i links rule: ringLoop.induct)
  case (1 g i links)
  show ?case
  proof (cases "i < length g")
    case True
    then have "[i..<length g] = i # [Suc i..<length g]"
      by (simp add: upt_conv_Cons)
    with "1.IH" [OF True refl] True show ?thesis
      by (subst ringLoop.simps) (simp add: edge_def Let_def)
  next
    case False
    then show ?thesis
      by (subst ringLoop.simps) simp
  qed
qed

lemma ring_by_index:
  assumes "g \<noteq> []"
  shows "map (\<lambda>j. edge (g ! j) (g ! ((j + 1) mod length g))) [0..<length g]
     = map (\<lambda>(a, b). edge a b) (zip g (tl g)) @ [edge (last g) (hd g)]"
proof (rule nth_equalityI)
  show "length (map (\<lambda>j. edge (g ! j) (g ! ((j + 1) mod length g))) [0..<length g])
      = length (map (\<lambda>(a, b). edge a b) (zip g (tl g)) @ [edge (last g) (hd g)])"
    using assms by (cases g) simp_all
next
  fix j
  assume "j < length (map (\<lambda>j. edge (g ! j) (g ! ((j + 1) mod length g))) [0..<length g])"
  then have j: "j < length g" by simp
  show "map (\<lambda>j. edge (g ! j) (g ! ((j + 1) mod length g))) [0..<length g] ! j
      = (map (\<lambda>(a, b). edge a b) (zip g (tl g)) @ [edge (last g) (hd g)]) ! j"
  proof (cases "Suc j < length g")
    case True
    then show ?thesis
      by (simp add: nth_append nth_tl)
  next
    case False
    with j have "j = length g - 1" by simp
    then show ?thesis
      using assms by (simp add: nth_append last_conv_nth hd_conv_nth)
  qed
qed

lemma linkGroup_spec: "linkGroup g links = links @ cohortEdges_spec g"
proof (cases "length g \<le> 2")
  case True
  then consider "g = []" | "length g = 1" | "length g = 2"
    by (cases g) (auto simp: le_Suc_eq)
  then show ?thesis
  proof cases
    case 1
    then show ?thesis
      by (simp add: linkGroup_def cohortEdges_spec_def ringLoop_map)
  next
    case 2
    then show ?thesis
      by (simp add: linkGroup_def cohortEdges_spec_def)
  next
    case 3
    then show ?thesis
      by (simp add: linkGroup_def cohortEdges_spec_def edge_def)
  qed
next
  case False
  then have "g \<noteq> []" by auto
  from ring_by_index [OF this] False show ?thesis
    by (simp add: linkGroup_def cohortEdges_spec_def ringLoop_map)
qed

lemma length_cohortEdges:
  "length (cohortEdges_spec g) = (if length g \<le> 1 then 0 else if length g = 2 then 1 else length g)"
  by (cases g) (simp_all add: cohortEdges_spec_def)

lemma fold_linkGroup:
  "fold (\<lambda>(year, groupNodes) links. linkGroup groupNodes links) gs acc
     = acc @ concat (map (\<lambda>(year, groupNodes). cohortEdges_spec groupNodes) gs)"
  by (induction gs arbitrary: acc) (auto simp: linkGroup_spec)

lemma buildLinks_concat:
  "buildLinks nodes = concat (map (\<lambda>(year, groupNodes). cohortEdges_spec groupNodes) (yearGroups nodes))"
  by (simp add: buildLinks_def fold_linkGroup)

lemma cohortEdges_ends:
  assumes "l \<in> set (cohortEdges_spec g)"
  shows "\<exists>a \<in> set g. \<exists>b \<in> set g. l = edge a b"
proof (cases "length g = 2")
  case True
  with assms have "l = edge (g ! 0) (g ! 1)"
    by (simp add: cohortEdges_spec_def)
  moreover from True have "g ! 0 \<in> set g" "g ! 1 \<in> set g"
    by simp_all
  ultimately show ?thesis
    by (intro bexI [of _ "g ! 0"] bexI [of _ "g ! 1"])
next
  case False
  with assms have ne: "g \<noteq> []"
    and l: "l = edge (last g) (hd g) \<or> l \<in> (\<lambda>(a, b). edge a b) ` set (zip g (tl g))"
    by (auto simp: cohortEdges_spec_def split: if_splits)
  have tl: "set (tl g) \<subseteq> set g"
    by (cases g) auto
  from l show ?thesis
  proof
    assume "l = edge (last g) (hd g)"
    moreover from ne have "last g \<in> set g" "hd g \<in> set g"
      by simp_all
    ultimately show ?thesis
      by (intro bexI [of _ "last g"] bexI [of _ "hd g"])
  next
    assume "l \<in> (\<lambda>(a, b). edge a b) ` set (zip g (tl g))"
    then obtain a b where ab: "(a, b) \<in> set (zip g (tl g))" "l = edge a b"
      by auto
    from ab(1) have "a \<in> set g" "b \<in> set (tl g)"
      by (auto dest: set_zip_leftD set_zip_rightD)
    with tl have "a \<in> set g" "b \<in> set g"
      by auto
    with ab(2) show ?thesis
      by (intro bexI [of _ a] bexI [of _ b])
  qed
qed

lemma buildLinks_same_cohort:
  assumes "l \<in> set (buildLinks nodes)"
  shows "\<exists>a \<in> set nodes. \<exists>b \<in> set nodes. l = edge a b \<and> yearKey a = yearKey b"
proof -
  from assms obtain k g where kg: "(k, g) \<in> set (yearGroups nodes)" "l \<in> set (cohortEdges_spec g)"
    by (auto simp: buildLinks_concat)
  from kg(1) have g: "g = filter (\<lambda>n. yearKey n = k) nodes"
    by (simp add: yearGroups_member)
  from cohortEdges_ends [OF kg(2)] obtain a b where ab: "a \<in> set g" "b \<in> set g" "l = edge a b"
    by blast
  from ab(1,2) g have "a \<in> set nodes" "b \<in> set nodes" "yearKey a = k" "yearKey b = k"
    by simp_all
  with ab(3) show ?thesis
    by (intro bexI [of _ a] bexI [of _ b] conjI) simp_all
qed

lemma yearGroups_covers:
  assumes "n \<in> set nodes"
  shows "(yearKey n, filter (\<lambda>m. yearKey m = yearKey n) nodes) \<in> set (yearGroups nodes)
    \<and> n \<in> set (filter (\<lambda>m. yearKey m = yearKey n) nodes)"
  using assms by (simp add: yearGroups_member)

lemma yearGroups_groups:
  assumes "(k, g) \<in> set (yearGroups nodes)"
  shows "g \<noteq> [] \<and> g = filter (\<lambda>n. yearKey n = k) nodes"
  using assms by (auto simp: yearGroups_member filter_empty_conv)

lemma linkGroup_sizes:
  "(length g = 1 \<longrightarrow> linkGroup g [] = [])
   \<and> (length g = 2 \<longrightarrow> linkGroup g [] = [edge (g ! 0) (g ! 1)])
   \<and> (3 \<le> length g \<longrightarrow> length (linkGroup g []) = length g
        \<and> linkGroup g [] = map (\<lambda>(a, b). edge a b) (zip g (tl g)) @ [edge (last g) (hd g)])"
  using length_cohortEdges [of g]
  by (simp add: linkGroup_spec) (simp add: cohortEdges_spec_def)

lemma buildLinks_distinct_ids:
  assumes d: "distinct (map node_id nodes)"
    and l: "l \<in> set (buildLinks nodes)"
    and a: "a \<in> set nodes" "node_id a = source l"
    and b: "b \<in> set nodes" "node_id b = target l"
  shows "yearKey a = yearKey b"
proof -
  from buildLinks_same_cohort [OF l] obtain a' b'
    where ab: "a' \<in> set nodes" "b' \<in> set nodes" "l = edge a' b'" "yearKey a' = yearKey b'"
    by blast
  from d have inj: "inj_on node_id (set nodes)"
    by (simp add: distinct_map)
  from ab(3) a(2) b(2) have "node_id a = node_id a'" "node_id b = node_id b'"
    by (simp_all add: edge_def)
  with inj a(1) b(1) ab(1,2) have "a = a'" "b = b'"
    by (auto dest: inj_onD)
  with ab(4) show ?thesis by simp
qed

section \<open>Facts about the search handler\<close>

lemma getMatchScore_empty_text: "query \<noteq> [] \<Longrightarrow> getMatchScore [] query = 0"
  by (simp add: getMatchScore_spec score_spec_def toLowerCase_def)

lemma cardScore_label:
  "query \<noteq> [] \<Longrightarrow>
   cardScore query c =
     max (getMatchScore (personNameText c) query)
         (case yearText c of None \<Rightarrow> 0 | Some label \<Rightarrow> getMatchScore label query)"
  by (simp add: cardScore_def Let_def getMatchScore_empty_text split: option.split)

text \<open>The node loop scores the graduation year itself: its score is the effective score.\<close>

lemma nodeScore_effective:
  "query \<noteq> [] \<Longrightarrow> nodeScore query e = effectiveScore_spec query e"
  by (simp add: nodeScore_def effectiveScore_spec_def Let_def getMatchScore_empty_text
      split: option.split)

text \<open>A card without a year label has the effective score as its score.\<close>

lemma cardScore_effective_no_year:
  "query \<noteq> [] \<Longrightarrow> graduationYear (datum c) = None \<Longrightarrow>
   cardScore query c = effectiveScore_spec query c"
  by (simp add: cardScore_label effectiveScore_spec_def yearText_def personNameText_def)

lemma cardLoop_Cons:
  "fst (cardLoop query (c # rest) k bestScore firstMatch)
     = classify (cardScore query c > 0) c
       # fst (cardLoop query rest (Suc k)
           (if bestScore < cardScore query c then cardScore query c else bestScore)
           (if bestScore < cardScore query c then Some k else firstMatch))"
  "snd (cardLoop query (c # rest) k bestScore firstMatch)
     = snd (cardLoop query rest (Suc k)
           (if bestScore < cardScore query c then cardScore query c else bestScore)
           (if bestScore < cardScore query c then Some k else firstMatch))"
  by (auto simp: Let_def split: prod.splits)

lemma cardLoop_classes:
  "fst (cardLoop query cs k bestScore firstMatch)
     = map (\<lambda>c. classify (cardScore query c > 0) c) cs"
proof (induction cs arbitrary: k bestScore firstMatch)
  case Nil
  show ?case by simp
next
  case (Cons c rest)
  show ?case
    unfolding cardLoop_Cons by (simp add: Cons.IH)
qed

lemma cardLoop_first_best:
  "snd (cardLoop query cs k bestScore firstMatch) = r \<Longrightarrow>
     (if \<forall>c \<in> set cs. cardScore query c \<le> bestScore then r = firstMatch
      else \<exists>i < length cs. r = Some (k + i) \<and> bestScore < cardScore query (cs ! i)
             \<and> (\<forall>j < length cs. cardScore query (cs ! j) \<le> cardScore query (cs ! i))
             \<and> (\<forall>j < i. cardScore query (cs ! j) < cardScore query (cs ! i)))"
proof (induction cs arbitrary: k bestScore firstMatch)
  case Nil
  then show ?case by simp
next
  case (Cons c rest)
  let ?s = "cardScore query c"
  show ?case
  proof (cases "bestScore < ?s")
    case True
    with Cons.prems have r: "snd (cardLoop query rest (Suc k) ?s (Some k)) = r"
      by (simp add: cardLoop_Cons del: cardLoop.simps)
    show ?thesis
    proof (cases "\<forall>c \<in> set rest. cardScore query c \<le> ?s")
      case all: True
      with Cons.IH [OF r] have "r = Some k" by simp
      with True all show ?thesis
        by (auto simp: nth_Cons' intro!: exI [of _ 0])
    next
      case some: False
      with Cons.IH [OF r] obtain i where i: "i < length rest" "r = Some (Suc k + i)"
        "?s < cardScore query (rest ! i)"
        "\<forall>j < length rest. cardScore query (rest ! j) \<le> cardScore query (rest ! i)"
        "\<forall>j < i. cardScore query (rest ! j) < cardScore query (rest ! i)"
        by auto
      have "\<not> (\<forall>c \<in> set (c # rest). cardScore query c \<le> bestScore)"
        using True by auto
      moreover have "Suc i < length (c # rest) \<and> r = Some (k + Suc i)
          \<and> bestScore < cardScore query ((c # rest) ! Suc i)
          \<and> (\<forall>j < length (c # rest). cardScore query ((c # rest) ! j) \<le> cardScore query ((c # rest) ! Suc i))
          \<and> (\<forall>j < Suc i. cardScore query ((c # rest) ! j) < cardScore query ((c # rest) ! Suc i))"
        using i True by (auto simp: nth_Cons' less_Suc_eq_0_disj)
      ultimately show ?thesis by (simp only: if_False) blast
    qed
  next
    case False
    with Cons.prems have r: "snd (cardLoop query rest (Suc k) bestScore firstMatch) = r"
      by (simp add: cardLoop_Cons del: cardLoop.simps)
    show ?thesis
    proof (cases "\<forall>c \<in> set rest. cardScore query c \<le> bestScore")
      case all: True
      with Cons.IH [OF r] False show ?thesis by simp
    next
      case some: False
      with Cons.IH [OF r] obtain i where i: "i < length rest" "r = Some (Suc k + i)"
        "bestScore < cardScore query (rest ! i)"
        "\<forall>j < length rest. cardScore query (rest ! j) \<le> cardScore query (rest ! i)"
        "\<forall>j < i. cardScore query (rest ! j) < cardScore query (rest ! i)"
        by auto
      have "\<not> (\<forall>c \<in> set (c # rest). cardScore query c \<le> bestScore)"
        using some by auto
      moreover have "Suc i < length (c # rest) \<and> r = Some (k + Suc i)
          \<and> bestScore < cardScore query ((c # rest) ! Suc i)
          \<and> (\<forall>j < length (c # rest). cardScore query ((c # rest) ! j) \<le> cardScore query ((c # rest) ! Suc i))
          \<and> (\<forall>j < Suc i. cardScore query ((c # rest) ! j) < cardScore query ((c # rest) ! Suc i))"
        using i False by (auto simp: nth_Cons' less_Suc_eq_0_disj)
      ultimately show ?thesis by (simp only: if_False) blast
    qed
  qed
qed

lemma searchInput_scroll:
  "trim (toLowerCase v) \<noteq> [] \<Longrightarrow>
   scrolledIntoView (searchInput v pg) =
     (case snd (cardLoop (trim (toLowerCase v)) (cardEls pg) 0 0 None) of
        None \<Rightarrow> scrolledIntoView pg | Some k \<Rightarrow> Some k)"
  by (simp add: searchInput_def Let_def split: prod.split)

lemma searchInput_empty:
  "trim (toLowerCase v) = [] \<Longrightarrow>
   searchInput v pg = pg\<lparr>nodeEls := clearSearch (nodeEls pg), cardEls := clearSearch (cardEls pg)\<rparr>"
  by (simp add: searchInput_def)

text \<open>
  The card scrolled into view is the first card of the highest score the card loop
  computes, which takes the rendered label \<^verbatim>\<open>Class of <year>\<close> for the year.
\<close>

lemma searchInput_scroll_first_best:
  assumes query: "query = trim (toLowerCase v)" "query \<noteq> []"
    and matching: "\<exists>c \<in> set (cardEls pg). 0 < cardScore query c"
  shows "\<exists>i < length (cardEls pg).
      scrolledIntoView (searchInput v pg) = Some i
      \<and> (\<forall>j < length (cardEls pg).
            cardScore query (cardEls pg ! j) \<le> cardScore query (cardEls pg ! i))
      \<and> (\<forall>j < i. cardScore query (cardEls pg ! j) < cardScore query (cardEls pg ! i))"
proof -
  let ?cs = "cardEls pg"
  from matching have some: "\<not> (\<forall>c \<in> set ?cs. cardScore query c \<le> 0)"
    by auto
  have "\<exists>i < length ?cs. snd (cardLoop query ?cs 0 0 None) = Some (0 + i)
      \<and> 0 < cardScore query (?cs ! i)
      \<and> (\<forall>j < length ?cs. cardScore query (?cs ! j) \<le> cardScore query (?cs ! i))
      \<and> (\<forall>j < i. cardScore query (?cs ! j) < cardScore query (?cs ! i))"
    using cardLoop_first_best [where query = query and cs = ?cs and k = 0 and bestScore = 0
      and firstMatch = None, OF refl]
    by (simp only: some if_False)
  then obtain i where i: "i < length ?cs" "snd (cardLoop query ?cs 0 0 None) = Some i"
    "\<forall>j < length ?cs. cardScore query (?cs ! j) \<le> cardScore query (?cs ! i)"
    "\<forall>j < i. cardScore query (?cs ! j) < cardScore query (?cs ! i)"
    by auto
  from i(2) query have "scrolledIntoView (searchInput v pg) = Some i"
    by (simp add: searchInput_scroll)
  with i(1,3,4) show ?thesis
    by auto
qed

section \<open>Facts about the interaction controller\<close>

lemma filter_update_single:
  "i < length xs \<Longrightarrow> \<forall>x \<in> set xs. \<not> P x \<Longrightarrow> P y \<Longrightarrow> filter P (xs[i := y]) = [y]"
proof (induction xs arbitrary: i)
  case Nil
  then show ?case by simp
next
  case (Cons x xs)
  then show ?case
    by (cases i) (simp_all add: filter_empty_conv)
qed

lemma clearActive_none: "\<forall>e \<in> set (clearActive es). \<not> active e"
  by (simp add: clearActive_def)

lemma filter_active_clearActive: "filter active (clearActive es) = []"
  by (simp add: clearActive_def filter_empty_conv)

lemma data_id_clearActive: "map data_id (clearActive es) = map data_id es"
  by (simp add: clearActive_def data_id_def)

lemma activateFirst_single:
  "\<forall>c \<in> set cs. \<not> active c \<Longrightarrow> k \<in> data_id ` set cs \<Longrightarrow>
   map data_id (filter active (activateFirst k cs)) = [k]"
proof (induction cs)
  case Nil
  then show ?case by simp
next
  case (Cons c cs)
  show ?case
  proof (cases "data_id c = k")
    case True
    with Cons.prems(1) show ?thesis
      by (simp add: data_id_def filter_empty_conv)
  next
    case False
    with Cons.prems Cons.IH show ?thesis
      by auto
  qed
qed

lemma activateFirst_absent:
  "k \<notin> data_id ` set cs \<Longrightarrow> activateFirst k cs = cs"
  by (induction cs) auto

lemma circleClick_one_pair:
  assumes i: "i < length (nodeEls pg)"
    and card: "node_id (datum (nodeEls pg ! i)) \<in> data_id ` set (cardEls pg)"
  shows "activeNodes (step (ClickCircle i) pg) = [node_id (datum (nodeEls pg ! i))]"
    and "activeCards (step (ClickCircle i) pg) = [node_id (datum (nodeEls pg ! i))]"
proof -
  let ?ns = "clearActive (nodeEls pg)"
  have len: "i < length ?ns"
    using i by (simp add: clearActive_def)
  have "filter active (?ns[i := (?ns ! i)\<lparr>active := True\<rparr>]) = [(?ns ! i)\<lparr>active := True\<rparr>]"
    using len clearActive_none by (rule filter_update_single) simp
  moreover have "data_id ((?ns ! i)\<lparr>active := True\<rparr>) = node_id (datum (nodeEls pg ! i))"
    using i by (simp add: clearActive_def data_id_def)
  ultimately show "activeNodes (step (ClickCircle i) pg) = [node_id (datum (nodeEls pg ! i))]"
    using i by (simp add: activeNodes_def circleClick_def showDetailedTooltip_def Let_def)
  have "node_id (datum (nodeEls pg ! i)) \<in> data_id ` set (clearActive (cardEls pg))"
    using card data_id_clearActive [of "cardEls pg"] by (metis set_map)
  with clearActive_none
  have "map data_id (filter active
      (activateFirst (node_id (datum (nodeEls pg ! i))) (clearActive (cardEls pg))))
      = [node_id (datum (nodeEls pg ! i))]"
    by (rule activateFirst_single)
  then show "activeCards (step (ClickCircle i) pg) = [node_id (datum (nodeEls pg ! i))]"
    using i by (simp add: activeCards_def circleClick_def showDetailedTooltip_def Let_def)
qed

lemma cardClick_one_card:
  assumes i: "i < length (cardEls pg)"
  shows "activeCards (step (ClickCard i) pg) = [data_id (cardEls pg ! i)]"
proof -
  let ?cs = "clearActive (cardEls pg)"
  have len: "i < length ?cs"
    using i by (simp add: clearActive_def)
  have "filter active (?cs[i := (?cs ! i)\<lparr>active := True\<rparr>]) = [(?cs ! i)\<lparr>active := True\<rparr>]"
    using len clearActive_none by (rule filter_update_single) simp
  moreover have "data_id ((?cs ! i)\<lparr>active := True\<rparr>) = data_id (cardEls pg ! i)"
    using i by (simp add: clearActive_def data_id_def)
  ultimately show ?thesis
    using i by (simp add: activeCards_def cardClick_def showDetailedTooltip_def documentClick_def)
qed

lemma cardClick_keeps_nodes: "nodeEls (step (ClickCard i) pg) = nodeEls pg"
  by (simp add: cardClick_def showDetailedTooltip_def documentClick_def)

lemma animationFrame_detailed:
  "frames pg = js @ [ShowDetailed] \<Longrightarrow> tooltip_detailed (animationFrame pg)"
  by (simp add: animationFrame_def runJob_def)

lemma click_then_frame_detailed:
  "i < length (nodeEls pg) \<Longrightarrow> tooltip_detailed (step Frame (step (ClickCircle i) pg))"
  "i < length (cardEls pg) \<Longrightarrow> tooltip_detailed (step Frame (step (ClickCard i) pg))"
  by (simp_all add: circleClick_def cardClick_def showDetailedTooltip_def documentClick_def
      Let_def animationFrame_detailed)

lemma outside_click_clears:
  "tooltip_detailed pg \<Longrightarrow>
   activeNodes (step ClickElsewhere pg) = [] \<and> activeCards (step ClickElsewhere pg) = []"
  by (simp add: documentClick_def activeNodes_def activeCards_def filter_active_clearActive)

lemma outside_click_before_frame:
  "\<not> tooltip_detailed pg \<Longrightarrow> step ClickElsewhere pg = pg"
  by (simp add: documentClick_def)

section \<open>The claims about the search matcher\<close>


text \<open>
  C4. For every text and every query, \<^const>\<open>fuzzyMatch\<close> is true exactly when the
  query's characters appear, in order, as a subsequence of the lowercased text. The scan
  is one pass from left to right: the index at which the loop stops is at most the length
  of the text. \<^verbatim>\<open>jc\<close> matches \<^verbatim>\<open>Joshua Choong\<close>, and \<^verbatim>\<open>jx\<close> does not match
  \<^verbatim>\<open>Choong\<close>.
\<close>

theorem C4_fuzzyMatch_subsequence:
  "fuzzyMatch text query = subseq query (toLowerCase text)
   \<and> fst (fuzzyLoop (toLowerCase text) query 0 0) \<le> length text
   \<and> fuzzyMatch ''Joshua Choong'' ''jc''
   \<and> \<not> fuzzyMatch ''Choong'' ''jx''"
proof -
  have "fst (fuzzyLoop (toLowerCase text) query 0 0) \<le> length text"
    using fuzzyLoop_index [of 0 "toLowerCase text" query 0]
    by (simp add: length_toLowerCase)
  moreover have "fuzzyMatch ''Joshua Choong'' ''jc''" by code_simp
  moreover have "\<not> fuzzyMatch ''Choong'' ''jx''" by code_simp
  ultimately show ?thesis
    by (simp add: fuzzyMatch_subseq)
qed

text \<open>
  C9. With the empty query, \<^const>\<open>fuzzyMatch\<close> is true and \<^const>\<open>getMatchScore\<close> is
  100 for every text, so every node and every card would score 100: only the guard of the
  search handler keeps an empty search from marking every item as a best match.
\<close>

theorem C9_empty_query_matches_everything:
  "fuzzyMatch text [] \<and> getMatchScore text [] = 100
   \<and> nodeScore [] e = 100 \<and> cardScore [] c = 100"
  by (simp add: fuzzyMatch_subseq getMatchScore_spec score_spec_def nodeScore_def cardScore_def
      Let_def split: option.split)

text \<open>
  C10. For every text and every query (the empty one too), the score is one of 0, 25, 50
  and 100, and it is positive exactly when \<^const>\<open>fuzzyMatch\<close> holds: a prefix is a
  substring, and a substring is a subsequence.
\<close>

theorem C10_score_values_and_fuzzy:
  "getMatchScore text query \<in> {0, 25, 50, 100}
   \<and> (0 < getMatchScore text query) = fuzzyMatch text query"
proof -
  have "prefix query (toLowerCase text) \<Longrightarrow> subseq query (toLowerCase text)"
    by (rule prefix_imp_subseq)
  moreover have "sublist query (toLowerCase text) \<Longrightarrow> subseq query (toLowerCase text)"
    by (rule sublist_imp_subseq)
  ultimately show ?thesis
    by (auto simp: getMatchScore_spec score_spec_def fuzzyMatch_subseq)
qed

section \<open>The claims about the tooltip positioner\<close>

text \<open>
  C5 does not hold of the positioner. In a window of 560 by 400, twice the fallback size
  of the detailed tooltip, with the tooltip of exactly that size (rendered, or the
  fallback when there is no element) and the anchor at (250, 200) inside the window,
  there is no room above or below, the placement to the right of the anchor overflows, and
  the flip to its left is returned as it is: \<open>left = -54\<close>, outside the window, although
  the rectangle would fit at (110, 100). The horizontal clamp of the first placement and
  the floor of the side placement's top are not applied to the flipped left. In a window
  of 360 by 120, twice the fallback size of the hover tooltip, the anchor (100, 90) gets
  the side placement with top 60, whose bottom edge 120 passes the padded bottom 108,
  although the rectangle would fit at (124, 48).
\<close>

theorem C5_side_placement_leaves_window:
  "anchorInside \<lparr>innerWidth = 560, innerHeight = 400\<rparr> 250 200
   \<and> 2 * fst (fallbackSize True) \<le> real (innerWidth \<lparr>innerWidth = 560, innerHeight = 400\<rparr>)
   \<and> 2 * snd (fallbackSize True) \<le> real (innerHeight \<lparr>innerWidth = 560, innerHeight = 400\<rparr>)
   \<and> positionTooltip \<lparr>innerWidth = 560, innerHeight = 400\<rparr>
        (Some \<lparr>offsetWidth = 280, offsetHeight = 200\<rparr>) 250 200 True 8
      = \<lparr>left = - 54, top_px = 100\<rparr>
   \<and> positionTooltip \<lparr>innerWidth = 560, innerHeight = 400\<rparr> None 250 200 True 8
      = \<lparr>left = - 54, top_px = 100\<rparr>
   \<and> \<not> insidePadded \<lparr>innerWidth = 560, innerHeight = 400\<rparr>
        (tooltipSize (Some \<lparr>offsetWidth = 280, offsetHeight = 200\<rparr>) True)
        (positionTooltip \<lparr>innerWidth = 560, innerHeight = 400\<rparr>
           (Some \<lparr>offsetWidth = 280, offsetHeight = 200\<rparr>) 250 200 True 8)
   \<and> insidePadded \<lparr>innerWidth = 560, innerHeight = 400\<rparr>
        (tooltipSize (Some \<lparr>offsetWidth = 280, offsetHeight = 200\<rparr>) True)
        \<lparr>left = 110, top_px = 100\<rparr>
   \<and> anchorInside \<lparr>innerWidth = 360, innerHeight = 120\<rparr> 100 90
   \<and> 2 * fst (fallbackSize False) \<le> real (innerWidth \<lparr>innerWidth = 360, innerHeight = 120\<rparr>)
   \<and> 2 * snd (fallbackSize False) \<le> real (innerHeight \<lparr>innerWidth = 360, innerHeight = 120\<rparr>)
   \<and> positionTooltip \<lparr>innerWidth = 360, innerHeight = 120\<rparr>
        (Some \<lparr>offsetWidth = 180, offsetHeight = 60\<rparr>) 100 90 False 8
      = \<lparr>left = 124, top_px = 60\<rparr>
   \<and> \<not> insidePadded \<lparr>innerWidth = 360, innerHeight = 120\<rparr>
        (tooltipSize (Some \<lparr>offsetWidth = 180, offsetHeight = 60\<rparr>) False)
        (positionTooltip \<lparr>innerWidth = 360, innerHeight = 120\<rparr>
           (Some \<lparr>offsetWidth = 180, offsetHeight = 60\<rparr>) 100 90 False 8)
   \<and> insidePadded \<lparr>innerWidth = 360, innerHeight = 120\<rparr>
        (tooltipSize (Some \<lparr>offsetWidth = 180, offsetHeight = 60\<rparr>) False)
        \<lparr>left = 124, top_px = 48\<rparr>"
  by (simp add: anchorInside_def fallbackSize_def positionTooltip_def insidePadded_def
      tooltipSize_def Let_def)

text \<open>
  C6 does not hold of the positioner. The placement below the anchor has no floor: its
  top is \<open>y + r + 16\<close>, and the anchor is the top of the bounding rectangle of a circle
  or a card, which is negative when the element is partly above the window. With the
  hover tooltip of 180 by 60 in a window of 800 by 600 and the radius 8, the anchor
  (400, -13) has the placement above rejected and gets the top 11, within the padding;
  the anchor (400, -40) gets the top -16, above the window. The side placement, in the
  same function, does floor its top at the padding.
\<close>

theorem C6_below_placement_has_no_floor:
  "(- 13 :: real) - 8 - snd (tooltipSize (Some \<lparr>offsetWidth = 180, offsetHeight = 60\<rparr>) False) - 16 < 12
   \<and> positionTooltip \<lparr>innerWidth = 800, innerHeight = 600\<rparr>
        (Some \<lparr>offsetWidth = 180, offsetHeight = 60\<rparr>) 400 (- 13) False 8
      = \<lparr>left = 310, top_px = 11\<rparr>
   \<and> \<not> 12 \<le> top_px (positionTooltip \<lparr>innerWidth = 800, innerHeight = 600\<rparr>
        (Some \<lparr>offsetWidth = 180, offsetHeight = 60\<rparr>) 400 (- 13) False 8)
   \<and> (- 40 :: real) - 8 - snd (tooltipSize (Some \<lparr>offsetWidth = 180, offsetHeight = 60\<rparr>) False) - 16 < 12
   \<and> positionTooltip \<lparr>innerWidth = 800, innerHeight = 600\<rparr>
        (Some \<lparr>offsetWidth = 180, offsetHeight = 60\<rparr>) 400 (- 40) False 8
      = \<lparr>left = 310, top_px = - 16\<rparr>
   \<and> \<not> 12 \<le> top_px (positionTooltip \<lparr>innerWidth = 800, innerHeight = 600\<rparr>
        (Some \<lparr>offsetWidth = 180, offsetHeight = 60\<rparr>) 400 (- 40) False 8)
   \<and> positionTooltip \<lparr>innerWidth = 800, innerHeight = 600\<rparr> None 400 (- 40) False 8
      = \<lparr>left = 310, top_px = - 16\<rparr>"
  by (simp add: positionTooltip_def tooltipSize_def Let_def)

section \<open>The claim about the relationship builder\<close>

text \<open>
  C2. For every sequence of nodes, the builder partitions the nodes into cohorts by the
  exact value of the graduation year, a missing year counting as \<^verbatim>\<open>unknown\<close>: the keys
  are the year keys of the nodes in the order of first occurrence, every node is in the
  group of its key, and the group of a key holds exactly the nodes with that key, in
  input order. The links are the links of the groups, one group after the other; a group
  of one node gives no link, a group of two gives one link, and a group of \<open>N \<ge> 3\<close>
  nodes gives \<open>N\<close> links, between consecutive nodes in group order and from the last
  node back to the first. Every link joins two nodes of one cohort; when the identifiers
  are distinct, no two nodes of different cohorts carry the identifiers of a link.
\<close>

theorem C2_relationship_builder:
  "map fst (yearGroups nodes) = firstOccurrences (map yearKey nodes)
   \<and> (\<forall>n \<in> set nodes. \<exists>g. (yearKey n, g) \<in> set (yearGroups nodes) \<and> n \<in> set g)
   \<and> (\<forall>(k, g) \<in> set (yearGroups nodes). g \<noteq> [] \<and> g = filter (\<lambda>n. yearKey n = k) nodes)
   \<and> buildLinks nodes = concat (map (\<lambda>(k, g). linkGroup g []) (yearGroups nodes))
   \<and> (length g = 1 \<longrightarrow> linkGroup g [] = [])
   \<and> (length g = 2 \<longrightarrow> linkGroup g [] = [edge (g ! 0) (g ! 1)])
   \<and> (3 \<le> length g \<longrightarrow> length (linkGroup g []) = length g
        \<and> linkGroup g [] = map (\<lambda>(a, b). edge a b) (zip g (tl g)) @ [edge (last g) (hd g)])
   \<and> (\<forall>l \<in> set (buildLinks nodes).
        \<exists>a \<in> set nodes. \<exists>b \<in> set nodes. l = edge a b \<and> yearKey a = yearKey b)
   \<and> (distinct (map node_id nodes) \<longrightarrow>
        (\<forall>l \<in> set (buildLinks nodes). \<forall>a \<in> set nodes. \<forall>b \<in> set nodes.
           node_id a = source l \<and> node_id b = target l \<longrightarrow> yearKey a = yearKey b))"
proof -
  have "\<forall>n \<in> set nodes. \<exists>g. (yearKey n, g) \<in> set (yearGroups nodes) \<and> n \<in> set g"
    using yearGroups_covers [of _ nodes] by blast
  moreover have "\<forall>(k, g) \<in> set (yearGroups nodes). g \<noteq> [] \<and> g = filter (\<lambda>n. yearKey n = k) nodes"
    using yearGroups_groups [of _ _ nodes] by blast
  moreover have "buildLinks nodes = concat (map (\<lambda>(k, g). linkGroup g []) (yearGroups nodes))"
    by (simp add: buildLinks_concat linkGroup_spec)
  moreover have "\<forall>l \<in> set (buildLinks nodes).
        \<exists>a \<in> set nodes. \<exists>b \<in> set nodes. l = edge a b \<and> yearKey a = yearKey b"
    using buildLinks_same_cohort [of _ nodes] by blast
  moreover have "distinct (map node_id nodes) \<longrightarrow>
        (\<forall>l \<in> set (buildLinks nodes). \<forall>a \<in> set nodes. \<forall>b \<in> set nodes.
           node_id a = source l \<and> node_id b = target l \<longrightarrow> yearKey a = yearKey b)"
    using buildLinks_distinct_ids [of nodes] by blast
  ultimately show ?thesis
    using yearGroups_keys [of nodes] linkGroup_sizes [of g] by (intro conjI) blast+
qed

theorem C2_relationship_builder_witness:
  "map node_id scenario = [''alice'', ''dan'', ''bob'', ''eve'', ''cara'', ''fay'']
   \<and> map (\<lambda>(k, g). (k, map node_id g)) (yearGroups scenario)
      = [(''2020'', [''alice'', ''bob'', ''cara'']), (''2021'', [''dan'', ''fay'']),
         (''unknown'', [''eve''])]
   \<and> buildLinks scenario
      = [\<lparr>source = ''alice'', target = ''bob''\<rparr>, \<lparr>source = ''bob'', target = ''cara''\<rparr>,
         \<lparr>source = ''cara'', target = ''alice''\<rparr>, \<lparr>source = ''dan'', target = ''fay''\<rparr>]
   \<and> distinct (map node_id scenario)
   \<and> (\<exists>a \<in> set scenario. \<exists>b \<in> set scenario.
        \<lparr>source = ''cara'', target = ''alice''\<rparr> = edge a b \<and> yearKey a = yearKey b)"
proof -
  have ids: "map node_id scenario = [''alice'', ''dan'', ''bob'', ''eve'', ''cara'', ''fay'']"
    by code_simp
  have groups: "map (\<lambda>(k, g). (k, map node_id g)) (yearGroups scenario)
      = [(''2020'', [''alice'', ''bob'', ''cara'']), (''2021'', [''dan'', ''fay'']),
         (''unknown'', [''eve''])]"
    by code_simp
  have links: "buildLinks scenario
      = [\<lparr>source = ''alice'', target = ''bob''\<rparr>, \<lparr>source = ''bob'', target = ''cara''\<rparr>,
         \<lparr>source = ''cara'', target = ''alice''\<rparr>, \<lparr>source = ''dan'', target = ''fay''\<rparr>]"
    by code_simp
  have ids_distinct: "distinct (map node_id scenario)"
    by code_simp
  from C2_relationship_builder [where nodes = scenario]
  have "\<forall>l \<in> set (buildLinks scenario).
        \<exists>a \<in> set scenario. \<exists>b \<in> set scenario. l = edge a b \<and> yearKey a = yearKey b"
    by blast
  then have "\<exists>a \<in> set scenario. \<exists>b \<in> set scenario.
        \<lparr>source = ''cara'', target = ''alice''\<rparr> = edge a b \<and> yearKey a = yearKey b"
    by (simp add: links)
  with ids groups links ids_distinct show ?thesis
    by blast
qed

section \<open>The claims about the search handler\<close>

text \<open>
  C7. When the value of the search box, lowercased and trimmed, is empty, the handler
  leaves no node element and no card with the class \<^verbatim>\<open>search-match\<close> or
  \<^verbatim>\<open>search-dim\<close>, whatever the classes were before; the elements stay bound to the same
  data.
\<close>

theorem C7_empty_query_clears:
  assumes "trim (toLowerCase v) = []"
  shows "(\<forall>e \<in> set (nodeEls (searchInput v pg)). \<not> search_match e \<and> \<not> search_dim e)
    \<and> (\<forall>c \<in> set (cardEls (searchInput v pg)). \<not> search_match c \<and> \<not> search_dim c)
    \<and> map datum (nodeEls (searchInput v pg)) = map datum (nodeEls pg)
    \<and> map datum (cardEls (searchInput v pg)) = map datum (cardEls pg)"
  using assms by (auto simp: searchInput_empty clearSearch_def)

theorem C7_empty_query_clears_witness:
  "trim (toLowerCase ''  '') = []
   \<and> map search_match (cardEls (searchInput ''jo'' (loadPage team))) = [True, True, True, False]
   \<and> map search_dim (nodeEls (searchInput ''jo'' (loadPage team))) = [False, False, False, True]
   \<and> length (cardEls (searchInput ''  '' (searchInput ''jo'' (loadPage team)))) = 4
   \<and> length (nodeEls (searchInput ''  '' (searchInput ''jo'' (loadPage team)))) = 4
   \<and> list_all (\<lambda>c. \<not> search_match c \<and> \<not> search_dim c)
        (cardEls (searchInput ''  '' (searchInput ''jo'' (loadPage team))))
   \<and> list_all (\<lambda>e. \<not> search_match e \<and> \<not> search_dim e)
        (nodeEls (searchInput ''  '' (searchInput ''jo'' (loadPage team))))"
proof -
  have e: "trim (toLowerCase ''  '') = []"
    by code_simp
  have before: "map search_match (cardEls (searchInput ''jo'' (loadPage team))) = [True, True, True, False]"
    "map search_dim (nodeEls (searchInput ''jo'' (loadPage team))) = [False, False, False, True]"
    by code_simp+
  have len: "length (cardEls (searchInput ''  '' (searchInput ''jo'' (loadPage team)))) = 4"
    "length (nodeEls (searchInput ''  '' (searchInput ''jo'' (loadPage team)))) = 4"
    by code_simp+
  from C7_empty_query_clears [OF e, of "searchInput ''jo'' (loadPage team)"]
  have "list_all (\<lambda>c. \<not> search_match c \<and> \<not> search_dim c)
        (cardEls (searchInput ''  '' (searchInput ''jo'' (loadPage team))))"
    and "list_all (\<lambda>e. \<not> search_match e \<and> \<not> search_dim e)
        (nodeEls (searchInput ''  '' (searchInput ''jo'' (loadPage team))))"
    by (simp_all add: list_all_iff)
  with e before len show ?thesis
    by blast
qed

text \<open>
  C8 does not hold of the card loop. The loop reads the year of a card from its rendered
  label, \<^verbatim>\<open>Class of <year>\<close>, while the node loop of the same handler scores the
  graduation year itself. On the page of \<^const>\<open>duo\<close> with the query \<^verbatim>\<open>c\<close>, the
  effective scores are 0 for Bob (neither \<^verbatim>\<open>bob\<close> nor \<^verbatim>\<open>2020\<close> matches) and 100
  for Carl, and the node loop marks Carl only; the card loop scores both cards 100, since
  \<^verbatim>\<open>class of 2020\<close> starts with \<^verbatim>\<open>c\<close>, marks both, and scrolls to the card of Bob,
  whose effective score is not the highest.
\<close>

theorem C8_card_loop_scores_rendered_label:
  "trim (toLowerCase ''c'') = ''c''
   \<and> map (effectiveScore_spec ''c'') (cardEls (loadPage duo)) = [0, 100]
   \<and> map (nodeScore ''c'') (nodeEls (loadPage duo)) = [0, 100]
   \<and> map (cardScore ''c'') (cardEls (loadPage duo)) = [100, 100]
   \<and> scrolledIntoView (searchInput ''c'' (loadPage duo)) = Some 0
   \<and> effectiveScore_spec ''c'' (cardEls (loadPage duo) ! 0)
        < effectiveScore_spec ''c'' (cardEls (loadPage duo) ! 1)
   \<and> map search_match (nodeEls (searchInput ''c'' (loadPage duo))) = [False, True]
   \<and> map search_match (cardEls (searchInput ''c'' (loadPage duo))) = [True, True]"
  by code_simp

section \<open>The claim about the interaction controller\<close>

text \<open>
  C1 does not hold of the card's click handler. The handler of a node's circle clears the
  class \<^verbatim>\<open>active\<close> on all nodes and all cards and sets it on the clicked node and on
  the card with the node's identifier (\<open>circleClick_one_pair\<close>); the handler of a card
  sets it on the clicked card only and leaves the nodes as they are
  (\<open>cardClick_keeps_nodes\<close>). On the page of \<^const>\<open>team\<close>: a click on the card of
  Joshua Choong leaves no node active; after a click on the node of Bob Jones, the same
  click leaves the node of Bob Jones active beside the card of Joshua Choong. The click on
  a node does give one active node and one active card with the same identifier, and a
  click elsewhere, once the frame has shown the detailed tooltip, clears both.
\<close>

theorem C1_card_click_leaves_node_state:
  "activeCards (run [ClickCard 1] (loadPage team)) = [''joshua-choong'']
   \<and> activeNodes (run [ClickCard 1] (loadPage team)) = []
   \<and> activeNodes (run [ClickCircle 0, Frame, ClickCard 1] (loadPage team)) = [''bob-jones'']
   \<and> activeCards (run [ClickCircle 0, Frame, ClickCard 1] (loadPage team)) = [''joshua-choong'']
   \<and> activeNodes (run [ClickCircle 0] (loadPage team)) = [''bob-jones'']
   \<and> activeCards (run [ClickCircle 0] (loadPage team)) = [''bob-jones'']
   \<and> activeNodes (run [ClickCircle 0, Frame, ClickElsewhere] (loadPage team)) = []
   \<and> activeCards (run [ClickCircle 0, Frame, ClickElsewhere] (loadPage team)) = []"
  by code_simp

end
